theory Spec2Isabelle
  imports Complex_Main "HOL-Library.Sublist"
begin

section \<open>Support knowledge ingestion: \<^verbatim>\<open>scripts/ingest_support_knowledge.py\<close>\<close>

text \<open>
  A shallow embedding of the support-knowledge ingester: text resolution and the chunk
  filter (\<^verbatim>\<open>filter_chunks\<close>), the keyword extractor (\<^verbatim>\<open>extract_keywords\<close>), the
  embedding loop (\<^verbatim>\<open>generate_embeddings\<close>) and document assembly with bulk indexing
  (\<^verbatim>\<open>index_to_opensearch\<close>).

  A Python \<^verbatim>\<open>str\<close> is a sequence of code points. It is modelled as a \<^typ>\<open>string\<close> whose
  characters stand for the code points U+0000 to U+00FF, so \<^const>\<open>length\<close> is Python's
  \<^verbatim>\<open>len\<close>. Text with code points above U+00FF is not covered. Printing and the
  rate-limiting sleep have no effect on any returned value; of the printing, only the
  report of the bulk indexer is modelled (as a list of report lines).
\<close>

subsection \<open>Characters: the tables of Python for U+0000 to U+00FF\<close>

definition ord :: "char \<Rightarrow> nat" where
  "ord c = of_char c"

text \<open>The character classes of the regular expression: \<^verbatim>\<open>[A-Z]\<close>, \<^verbatim>\<open>[a-z]\<close>, \<^verbatim>\<open>[a-zA-Z]\<close>.\<close>

definition ascii_upper :: "char \<Rightarrow> bool" where
  "ascii_upper c = (65 \<le> ord c \<and> ord c \<le> 90)"

definition ascii_lower :: "char \<Rightarrow> bool" where
  "ascii_lower c = (97 \<le> ord c \<and> ord c \<le> 122)"

definition ascii_alpha :: "char \<Rightarrow> bool" where
  "ascii_alpha c = (ascii_lower c \<or> ascii_upper c)"

text \<open>
  \<^verbatim>\<open>\w\<close> of a \<^verbatim>\<open>str\<close> pattern: the underscore and every code point whose
  \<^verbatim>\<open>isalnum()\<close> holds. Below U+0100 these are the ASCII letters and digits, the letters
  U+00AA, U+00B5, U+00BA, U+00C0 to U+00FF without the two signs U+00D7 and U+00F7, and
  the numeric characters U+00B2, U+00B3, U+00B9, U+00BC to U+00BE.
\<close>

definition is_word :: "char \<Rightarrow> bool" where
  "is_word c =
     (let n = ord c in
        (48 \<le> n \<and> n \<le> 57) \<or> (65 \<le> n \<and> n \<le> 90) \<or> n = 95 \<or> (97 \<le> n \<and> n \<le> 122)
        \<or> n = 170 \<or> n = 178 \<or> n = 179 \<or> n = 181 \<or> n = 185 \<or> n = 186
        \<or> (188 \<le> n \<and> n \<le> 190)
        \<or> (192 \<le> n \<and> n \<le> 214) \<or> (216 \<le> n \<and> n \<le> 246) \<or> (248 \<le> n \<and> n \<le> 255))"

text \<open>
  \<^verbatim>\<open>str.lower()\<close>: below U+0100 the upper-case letters are A to Z and U+00C0 to U+00DE
  without the multiplication sign U+00D7; each maps to the code point 32 above it.
\<close>

definition lower_char :: "char \<Rightarrow> char" where
  "lower_char c =
     (let n = ord c in
        if (65 \<le> n \<and> n \<le> 90) \<or> (192 \<le> n \<and> n \<le> 214) \<or> (216 \<le> n \<and> n \<le> 222)
        then char_of (n + 32) else c)"

definition lower :: "string \<Rightarrow> string" where
  "lower s = map lower_char s"

text \<open>
  \<^verbatim>\<open>str.isspace()\<close>, the characters \<^verbatim>\<open>str.strip()\<close> removes: U+0009 to U+000D,
  U+001C to U+0020, U+0085 and U+00A0.
\<close>

definition is_space :: "char \<Rightarrow> bool" where
  "is_space c =
     (let n = ord c in (9 \<le> n \<and> n \<le> 13) \<or> (28 \<le> n \<and> n \<le> 32) \<or> n = 133 \<or> n = 160)"

definition strip :: "string \<Rightarrow> string" where
  "strip s = rev (dropWhile is_space (rev (dropWhile is_space s)))"

text \<open>\<^verbatim>\<open>sep.join(parts)\<close> with the separator \<^verbatim>\<open>" "\<close>.\<close>

fun join_spaces :: "string list \<Rightarrow> string" where
  "join_spaces [] = []"
| "join_spaces [w] = w"
| "join_spaces (w # v # ws) = w @ '' '' @ join_spaces (v # ws)"

subsection \<open>The keyword extractor\<close>

definition stop_words :: "string list" where
  "stop_words =
    [''the'', ''a'', ''an'', ''and'', ''or'', ''but'', ''in'', ''on'', ''at'', ''to'', ''for'', ''of'', ''with'',
     ''by'', ''from'', ''as'', ''is'', ''was'', ''are'', ''were'', ''been'', ''be'', ''have'', ''has'', ''had'',
     ''do'', ''does'', ''did'', ''will'', ''would'', ''could'', ''should'', ''may'', ''might'', ''must'',
     ''can'', ''this'', ''that'', ''these'', ''those'', ''i'', ''you'', ''he'', ''she'', ''it'', ''we'', ''they'',
     ''what'', ''which'', ''who'', ''when'', ''where'', ''why'', ''how'', ''if'', ''then'', ''than'',
     ''my'', ''your'', ''his'', ''her'', ''its'', ''our'', ''their'', ''me'', ''him'', ''us'', ''them'']"

text \<open>
  \<^verbatim>\<open>re.findall(r'\b[a-zA-Z]{3,}\b', s)\<close>. The scan goes through the positions of
  \<^verbatim>\<open>s\<close> from the left. \<open>char_at s i\<close> is the character at position \<open>i\<close>, \<open>None\<close>
  outside the string; \<^verbatim>\<open>\b\<close> holds between two positions when exactly one of them
  is a word character (no character counts as a non-word character).
\<close>

definition char_at :: "string \<Rightarrow> nat \<Rightarrow> char option" where
  "char_at s i = (if i < length s then Some (s ! i) else None)"

definition word_at :: "char option \<Rightarrow> bool" where
  "word_at c = (case c of None \<Rightarrow> False | Some x \<Rightarrow> is_word x)"

definition word_boundary :: "char option \<Rightarrow> char option \<Rightarrow> bool" where
  "word_boundary p n = (word_at p \<noteq> word_at n)"

text \<open>
  One match attempt at the start of \<open>s\<close>, the character before it being \<open>prev\<close>: the
  length of the match, if there is one. \<^verbatim>\<open>\b\<close> must hold here; the greedy
  \<^verbatim>\<open>[a-zA-Z]{3,}\<close> takes the whole run of letters and gives characters back one at a
  time, down to three, until the closing \<^verbatim>\<open>\b\<close> holds.
\<close>

definition match_at :: "char option \<Rightarrow> string \<Rightarrow> nat option" where
  "match_at prev s =
     (if word_boundary prev (char_at s 0) then
        (let n = length (takeWhile ascii_alpha s) in
           find (\<lambda>k. word_boundary (char_at s (k - 1)) (char_at s k)) (rev [3..<Suc n]))
      else None)"

text \<open>
  The scan: a match is emitted and the scan goes on behind it; where the attempt fails
  the scan moves one character on.
\<close>

function findall_from :: "char option \<Rightarrow> string \<Rightarrow> string list" where
  "findall_from prev [] = []"
| "findall_from prev (c # cs) =
     (case match_at prev (c # cs) of
        None \<Rightarrow> findall_from (Some c) cs
      | Some k \<Rightarrow> take k (c # cs) # findall_from (char_at (c # cs) (k - 1)) (drop k (c # cs)))"
  by pat_completeness auto
termination
proof (relation "measure (\<lambda>(prev, s). length s)")
  show "wf (measure (\<lambda>(prev, s). length s))" by simp
next
  fix prev :: "char option" and c :: char and cs :: string
  show "((Some c, cs), (prev, c # cs)) \<in> measure (\<lambda>(prev, s). length s)" by simp
next
  fix prev :: "char option" and c :: char and cs :: string and k :: nat
  assume "match_at prev (c # cs) = Some k"
  then have "find (\<lambda>k. word_boundary (char_at (c # cs) (k - 1)) (char_at (c # cs) k))
      (rev [3..<Suc (length (takeWhile ascii_alpha (c # cs)))]) = Some k"
    by (simp add: match_at_def Let_def split: if_splits)
  then have "k \<in> set (rev [3..<Suc (length (takeWhile ascii_alpha (c # cs)))])"
    unfolding find_Some_iff using nth_mem by blast
  then have "3 \<le> k" by auto
  then show "((char_at (c # cs) (k - 1), drop k (c # cs)), (prev, c # cs))
      \<in> measure (\<lambda>(prev, s). length s)" by simp
qed

definition findall :: "string \<Rightarrow> string list" where
  "findall s = findall_from None s"

text \<open>
  \<^verbatim>\<open>Counter(keywords)\<close>: a dictionary from word to count that keeps the order in which
  the keys were first inserted, as an association list. Counting a word increments its
  entry, or appends a new entry with count 1.
\<close>

fun counter_add :: "(string \<times> nat) list \<Rightarrow> string \<Rightarrow> (string \<times> nat) list" where
  "counter_add [] w = [(w, 1)]"
| "counter_add ((k, c) # kcs) w =
     (if k = w then (k, c + 1) # kcs else (k, c) # counter_add kcs w)"

definition Counter :: "string list \<Rightarrow> (string \<times> nat) list" where
  "Counter ws = foldl counter_add [] ws"

text \<open>
  \<^verbatim>\<open>most_common(n)\<close>: the entries from the most common to the least, entries of equal
  count in the order first encountered (the stable sort of the entries by descending
  count), cut to the first \<open>n\<close>.
\<close>

definition most_common :: "nat \<Rightarrow> (string \<times> nat) list \<Rightarrow> (string \<times> nat) list" where
  "most_common n items = take n (sort_key (\<lambda>item. - int (snd item)) items)"

definition extract_keywords :: "string \<Rightarrow> string list" where
  "extract_keywords text =
     (let words = findall (lower text);
          keywords = filter (\<lambda>word. word \<notin> set stop_words) words;
          keyword_counts = Counter keywords;
          top_keywords = map fst (most_common 20 keyword_counts)
      in top_keywords)"

subsection \<open>Configuration\<close>

text \<open>
  The values \<^verbatim>\<open>config.py\<close> reads from the environment; the defaults are
  \<^verbatim>\<open>MIN_CHUNK_LENGTH = 100\<close> and \<^verbatim>\<open>EMBEDDING_DIMENSION = 1536\<close>. Both are Python
  integers of either sign.
\<close>

record config =
  DOCUMENT_PATH :: string
  OPENSEARCH_INDEX :: string
  MIN_CHUNK_LENGTH :: int
  EMBEDDING_DIMENSION :: int

definition default_config :: config where
  "default_config =
     \<lparr>DOCUMENT_PATH = ''LEXORA_SUPPORT_KNOWLEDGE_BASE.md'',
      OPENSEARCH_INDEX = ''lexora_support'',
      MIN_CHUNK_LENGTH = 100,
      EMBEDDING_DIMENSION = 1536\<rparr>"

subsection \<open>Raw elements and text resolution\<close>

text \<open>
  The values the \<^verbatim>\<open>text\<close> and \<^verbatim>\<open>content\<close> keys of an element hold: \<^verbatim>\<open>None\<close>, a
  string, or a list whose entries are strings or \<^verbatim>\<open>None\<close>. A key of the element that
  is absent is \<open>None\<close> of the option type; \<^verbatim>\<open>metadata\<close> is a dictionary (of which the
  keys \<^verbatim>\<open>title\<close> and \<^verbatim>\<open>filename\<close> are read, strings when present) or some other value.
\<close>

datatype entry = ENone | EStr string

datatype pyval = PNone | PStr string | PList "entry list"

record meta_dict =
  meta_title :: "string option"
  meta_filename :: "string option"

datatype metadata_val = MetaDict meta_dict | MetaOther

record raw_element =
  el_text :: "pyval option"
  el_content :: "pyval option"
  el_metadata :: "metadata_val option"
  el_type :: "string option"
  el_element_id :: "string option"
  el_category :: "string option"

text \<open>Truth values: \<^verbatim>\<open>None\<close>, the empty string and the empty list are falsy.\<close>

fun truthy :: "pyval \<Rightarrow> bool" where
  "truthy PNone = False"
| "truthy (PStr s) = (s \<noteq> [])"
| "truthy (PList ts) = (ts \<noteq> [])"

fun entry_truthy :: "entry \<Rightarrow> bool" where
  "entry_truthy ENone = False"
| "entry_truthy (EStr s) = (s \<noteq> [])"

fun entry_str :: "entry \<Rightarrow> string" where
  "entry_str ENone = ''None''"
| "entry_str (EStr s) = s"

text \<open>\<^verbatim>\<open>d.get(key, default)\<close> and \<^verbatim>\<open>a or b\<close>.\<close>

definition dict_get :: "'a option \<Rightarrow> 'a \<Rightarrow> 'a" where
  "dict_get v d = (case v of None \<Rightarrow> d | Some x \<Rightarrow> x)"

definition py_or :: "pyval \<Rightarrow> pyval \<Rightarrow> pyval" where
  "py_or a b = (if truthy a then a else b)"

definition str_or :: "string \<Rightarrow> string \<Rightarrow> string" where
  "str_or a b = (if a \<noteq> [] then a else b)"

text \<open>
  \<^verbatim>\<open>if isinstance(text, list): text = " ".join(str(t) for t in text if t)\<close>: after this
  statement \<^verbatim>\<open>text\<close> is \<^verbatim>\<open>None\<close> or a string.
\<close>

fun join_list :: "pyval \<Rightarrow> string option" where
  "join_list PNone = None"
| "join_list (PStr s) = Some s"
| "join_list (PList ts) = Some (join_spaces (map entry_str (filter entry_truthy ts)))"

text \<open>\<^verbatim>\<open>text = str(text).strip() if text else ""\<close>\<close>

fun strip_text :: "string option \<Rightarrow> string" where
  "strip_text None = []"
| "strip_text (Some s) = (if s \<noteq> [] then strip s else [])"

definition resolve_value :: "pyval \<Rightarrow> string" where
  "resolve_value v = strip_text (join_list v)"

definition resolve_text :: "raw_element \<Rightarrow> string" where
  "resolve_text element =
     resolve_value (py_or (dict_get (el_text element) (PStr [])) (dict_get (el_content element) (PStr [])))"

subsection \<open>The chunk filter\<close>

record chunk =
  chunk_text :: string
  chunk_keywords :: "string list"
  chunk_title :: string
  chunk_type :: string
  chunk_metadata :: "string \<rightharpoonup> string"

text \<open>\<^verbatim>\<open>text.split('\n')[0]\<close>: the text up to its first line feed.\<close>

definition first_line_of :: "string \<Rightarrow> string" where
  "first_line_of s = takeWhile (\<lambda>c. c \<noteq> CHR 0x0A) s"

definition resolve_title :: "raw_element \<Rightarrow> string \<Rightarrow> string" where
  "resolve_title element txt =
     (let title =
            (case dict_get (el_metadata element) (MetaDict \<lparr>meta_title = None, meta_filename = None\<rparr>) of
               MetaDict metadata \<Rightarrow>
                 str_or (dict_get (meta_title metadata) []) (dict_get (meta_filename metadata) [])
             | MetaOther \<Rightarrow> [])
      in if title = [] then
           (let first_line = strip (first_line_of txt)
            in if length first_line < 100 then first_line else title)
         else title)"

definition resolve_source :: "config \<Rightarrow> raw_element \<Rightarrow> string" where
  "resolve_source cfg element =
     (case dict_get (el_metadata element) (MetaDict \<lparr>meta_title = None, meta_filename = None\<rparr>) of
        MetaDict metadata \<Rightarrow> dict_get (meta_filename metadata) (DOCUMENT_PATH cfg)
      | MetaOther \<Rightarrow> DOCUMENT_PATH cfg)"

text \<open>The element \<^verbatim>\<open>filtered_element\<close> built for an element that is kept.\<close>

definition make_chunk :: "config \<Rightarrow> raw_element \<Rightarrow> chunk" where
  "make_chunk cfg element =
     (let txt = resolve_text element in
      \<lparr>chunk_text = txt,
       chunk_keywords = extract_keywords txt,
       chunk_title = resolve_title element txt,
       chunk_type = dict_get (el_type element) ''unknown'',
       chunk_metadata =
         [''source'' \<mapsto> resolve_source cfg element,
          ''element_id'' \<mapsto> dict_get (el_element_id element) [],
          ''category'' \<mapsto> dict_get (el_category element) []]\<rparr>)"

text \<open>The filter criterion \<^verbatim>\<open>if text and len(text) >= MIN_CHUNK_LENGTH\<close>.\<close>

definition keeps :: "config \<Rightarrow> raw_element \<Rightarrow> bool" where
  "keeps cfg element =
     (let txt = resolve_text element in txt \<noteq> [] \<and> MIN_CHUNK_LENGTH cfg \<le> int (length txt))"

text \<open>One round of the loop over the elements, \<open>filtered\<close> being the list built so far.\<close>

definition filter_step :: "config \<Rightarrow> chunk list \<Rightarrow> raw_element \<Rightarrow> chunk list" where
  "filter_step cfg filtered element =
     (if keeps cfg element then filtered @ [make_chunk cfg element] else filtered)"

definition filter_chunks :: "config \<Rightarrow> raw_element list \<Rightarrow> chunk list" where
  "filter_chunks cfg elements = foldl (filter_step cfg) [] elements"

subsection \<open>The embedding loop\<close>

text \<open>
  A component of an embedding is a float: a finite number, an infinity or a NaN. The
  embedding call (\<^verbatim>\<open>openai_client.embeddings.create\<close> and the read of
  \<^verbatim>\<open>response.data[0].embedding\<close>) is a parameter: a function from the text to the
  embedding or to the exception raised.
\<close>

datatype pyfloat = Finite real | PosInf | NegInf | NaN

datatype error = Error string

type_synonym provider = "string \<Rightarrow> error + pyfloat list"

definition isnan :: "pyfloat \<Rightarrow> bool" where
  "isnan val = (val = NaN)"

definition isinf :: "pyfloat \<Rightarrow> bool" where
  "isinf val = (val = PosInf \<or> val = NegInf)"

record enriched_chunk = chunk +
  vector_field :: "pyfloat list"

definition attach :: "chunk \<Rightarrow> pyfloat list \<Rightarrow> enriched_chunk" where
  "attach c embedding = chunk.extend c (enriched_chunk.fields embedding)"

text \<open>
  One round of the loop over the chunks. An exception in the body is caught and the
  loop goes on with the next chunk, as it does after a failed validation.
\<close>

definition embed_step :: "config \<Rightarrow> provider \<Rightarrow> enriched_chunk list \<Rightarrow> chunk \<Rightarrow> enriched_chunk list" where
  "embed_step cfg create enriched_chunks c =
     (case create (chunk_text c) of
        Inl e \<Rightarrow> enriched_chunks
      | Inr embedding \<Rightarrow>
          if int (length embedding) \<noteq> EMBEDDING_DIMENSION cfg then enriched_chunks
          else if list_ex (\<lambda>val. isnan val \<or> isinf val) embedding then enriched_chunks
          else enriched_chunks @ [attach c embedding])"

definition generate_embeddings :: "config \<Rightarrow> provider \<Rightarrow> chunk list \<Rightarrow> enriched_chunk list" where
  "generate_embeddings cfg create chunks = foldl (embed_step cfg create) [] chunks"

subsection \<open>Document assembly and bulk indexing\<close>

record index_document =
  doc_content :: string
  doc_text :: string
  doc_page_content :: string
  doc_keywords :: "string list"
  doc_keywords_text :: string
  doc_title :: string
  doc_vector_field :: "pyfloat list"
  doc_metadata :: "string \<rightharpoonup> string"
  doc_type :: "string option"

record action =
  action_index :: string
  action_id :: string
  action_source :: index_document

text \<open>\<^verbatim>\<open>str(i)\<close> of a natural number, for the f-string \<^verbatim>\<open>f"support_chunk_{i}"\<close>.\<close>

fun str_nat :: "nat \<Rightarrow> string" where
  "str_nat n =
     (if n < 10 then [char_of (48 + n)] else str_nat (n div 10) @ [char_of (48 + n mod 10)])"

definition make_doc :: "enriched_chunk \<Rightarrow> index_document" where
  "make_doc c =
     \<lparr>doc_content = chunk_text c,
      doc_text = chunk_text c,
      doc_page_content = chunk_text c,
      doc_keywords = chunk_keywords c,
      doc_keywords_text = join_spaces (chunk_keywords c),
      doc_title = chunk_title c,
      doc_vector_field = vector_field c,
      doc_metadata = chunk_metadata c,
      doc_type = Some (chunk_type c)\<rparr>"

definition make_action :: "config \<Rightarrow> nat \<Rightarrow> enriched_chunk \<Rightarrow> action" where
  "make_action cfg i c =
     \<lparr>action_index = OPENSEARCH_INDEX cfg,
      action_id = dict_get (chunk_metadata c ''element_id'') (''support_chunk_'' @ str_nat i),
      action_source = make_doc c\<rparr>"

definition make_actions :: "config \<Rightarrow> enriched_chunk list \<Rightarrow> action list" where
  "make_actions cfg chunks = map (\<lambda>(i, c). make_action cfg i c) (enumerate 0 chunks)"

text \<open>
  An item of the list of failures that \<^verbatim>\<open>bulk\<close> returns: its \<^verbatim>\<open>index\<close> entry, if
  it has one, with the \<^verbatim>\<open>_id\<close> and the \<^verbatim>\<open>error\<close> of the entry, if they are there. An
  error is a dictionary, with or without a \<^verbatim>\<open>reason\<close>, or another value, given by its
  \<^verbatim>\<open>str()\<close>.
\<close>

datatype error_val = ErrDict "string option" | ErrOther string

record error_info =
  info_id :: "string option"
  info_error :: "error_val option"

type_synonym failed_item = "error_info option"

type_synonym bulk_call = "action list \<Rightarrow> error + nat \<times> failed_item list"

datatype report_line =
    FailedHeader nat
  | FailedItem string string
  | IndexingComplete nat nat
  | BulkError error

definition failure_line :: "failed_item \<Rightarrow> report_line" where
  "failure_line item =
     (let error_info = dict_get item \<lparr>info_id = None, info_error = None\<rparr>;
          error_msg = dict_get (info_error error_info) (ErrDict None);
          doc_id = dict_get (info_id error_info) ''unknown'';
          reason = (case error_msg of
                      ErrDict r \<Rightarrow> dict_get r ''unknown error''
                    | ErrOther s \<Rightarrow> s)
      in FailedItem doc_id reason)"

text \<open>
  The function returns nothing; its result here is the report it prints after the bulk
  call, with \<open>Inr ()\<close> for a return and \<open>Inl e\<close> for the exception it raises again.
\<close>

definition index_to_opensearch ::
    "config \<Rightarrow> bulk_call \<Rightarrow> enriched_chunk list \<Rightarrow> report_line list \<times> (error + unit)" where
  "index_to_opensearch cfg bulk chunks =
     (let actions = make_actions cfg chunks in
      case bulk actions of
        Inl e \<Rightarrow> ([BulkError e], Inl e)
      | Inr (success_count, failed) \<Rightarrow>
          (let failed_count = (if failed \<noteq> [] then length failed else 0) in
           ((if failed \<noteq> [] then FailedHeader failed_count # map failure_line (take 5 failed) else [])
              @ [IndexingComplete success_count failed_count],
            Inr ())))"

subsection \<open>Notions the properties are stated with\<close>

text \<open>
  The maximal runs of word characters of a string, in order: the words that
  \<^verbatim>\<open>re.findall(r'\w+', s)\<close> would give.
\<close>

function word_runs :: "string \<Rightarrow> string list" where
  "word_runs [] = []"
| "word_runs (c # cs) =
     (if is_word c then takeWhile is_word (c # cs) # word_runs (dropWhile is_word cs)
      else word_runs cs)"
  by pat_completeness auto
termination
  by (relation "measure length") (auto simp: less_Suc_eq_le length_dropWhile_le)

text \<open>A word of letters only, at least three of them.\<close>

definition letters3 :: "string \<Rightarrow> bool" where
  "letters3 w = (3 \<le> length w \<and> list_all ascii_alpha w)"

text \<open>
  The reading of the tokenizer in which every character that is not a letter separates:
  the maximal runs of letters, and those of at least three letters.
\<close>

function letter_runs :: "string \<Rightarrow> string list" where
  "letter_runs [] = []"
| "letter_runs (c # cs) =
     (if ascii_alpha c then takeWhile ascii_alpha (c # cs) # letter_runs (dropWhile ascii_alpha cs)
      else letter_runs cs)"
  by pat_completeness auto
termination
  by (relation "measure length") (auto simp: less_Suc_eq_le length_dropWhile_le)

definition letter_runs3 :: "string \<Rightarrow> string list" where
  "letter_runs3 s = filter (\<lambda>w. 3 \<le> length w) (letter_runs s)"

text \<open>
  The value of the variable \<^verbatim>\<open>keywords\<close> of \<^verbatim>\<open>extract_keywords\<close>: the tokens of the
  lowered text that are no stop words, in text order and with repetitions.
\<close>

definition keyword_tokens :: "string \<Rightarrow> string list" where
  "keyword_tokens text = filter (\<lambda>word. word \<notin> set stop_words) (findall (lower text))"

text \<open>
  The position of the first occurrence of a token, the tokens in the order of their first
  occurrence, and the ranking: \<open>v\<close> ranks before \<open>w\<close> when it is more frequent, or as
  frequent and first seen earlier.
\<close>

fun first_index :: "'a list \<Rightarrow> 'a \<Rightarrow> nat" where
  "first_index [] w = 0"
| "first_index (x # xs) w = (if x = w then 0 else Suc (first_index xs w))"

definition first_seen :: "'a list \<Rightarrow> 'a list" where
  "first_seen ws = rev (remdups (rev ws))"

definition ranks_before :: "string list \<Rightarrow> string \<Rightarrow> string \<Rightarrow> bool" where
  "ranks_before toks v w =
     (count_list toks w < count_list toks v
      \<or> (count_list toks v = count_list toks w \<and> first_index toks v < first_index toks w))"

text \<open>
  An embedding passes the validation of the loop when it has the configured dimension
  and no component is a NaN or an infinity; \<open>embeds\<close> holds of a chunk whose call
  returns such an embedding, and \<open>enrich\<close> is that chunk with the embedding attached.
\<close>

definition valid_embedding :: "config \<Rightarrow> pyfloat list \<Rightarrow> bool" where
  "valid_embedding cfg v =
     (int (length v) = EMBEDDING_DIMENSION cfg \<and> \<not> list_ex (\<lambda>val. isnan val \<or> isinf val) v)"

definition embeds :: "config \<Rightarrow> provider \<Rightarrow> chunk \<Rightarrow> bool" where
  "embeds cfg create c = (case create (chunk_text c) of Inl e \<Rightarrow> False | Inr v \<Rightarrow> valid_embedding cfg v)"

definition enrich :: "provider \<Rightarrow> chunk \<Rightarrow> enriched_chunk" where
  "enrich create c = attach c (case create (chunk_text c) of Inl e \<Rightarrow> [] | Inr v \<Rightarrow> v)"

text \<open>The lines of the report that describe one rejected document.\<close>

definition is_failed_item :: "report_line \<Rightarrow> bool" where
  "is_failed_item line = (case line of FailedItem doc_id reason \<Rightarrow> True | _ \<Rightarrow> False)"

subsection \<open>Sample inputs\<close>

text \<open>
  An element with a \<^verbatim>\<open>text\<close> key only, a chunk with a given text, a rejected document
  as the index reports it, an embedding call that answers by the text it is given, and a text of 22
  different tokens, the last of them twice.
\<close>

definition text_element :: "string \<Rightarrow> raw_element" where
  "text_element s =
     \<lparr>el_text = Some (PStr s), el_content = None, el_metadata = None, el_type = None,
      el_element_id = None, el_category = None\<rparr>"

definition text_chunk :: "string \<Rightarrow> chunk" where
  "text_chunk s =
     \<lparr>chunk_text = s, chunk_keywords = [], chunk_title = s, chunk_type = ''unknown'',
      chunk_metadata = Map.empty\<rparr>"

definition rejected :: "string \<Rightarrow> string \<Rightarrow> failed_item" where
  "rejected doc_id reason = Some \<lparr>info_id = Some doc_id, info_error = Some (ErrDict (Some reason))\<rparr>"

definition sample_provider :: provider where
  "sample_provider s =
     (if s = ''good'' then Inr [Finite 1, Finite 2]
      else if s = ''short'' then Inr [Finite 1]
      else if s = ''nan'' then Inr [Finite 1, NaN]
      else if s = ''inf'' then Inr [PosInf, Finite 2]
      else Inl (Error ''RateLimitError''))"

definition sample_text :: string where
  "sample_text =
     ''alpha bravo charlie delta echo foxtrot golf hotel india juliet kilo lima mike november oscar papa quebec romeo sierra tango uniform victor victor''"

section \<open>Properties\<close>

subsection \<open>Characters\<close>

lemma ord_lt_256: "ord c < 256"
  by (simp add: ord_def)

lemma ord_char_of: "ord (char_of (n::nat)) = n mod 256"
  by (simp add: ord_def)

lemma lower_char_not_upper: "\<not> ascii_upper (lower_char c)"
  using ord_lt_256[of c]
  by (auto simp: ascii_upper_def lower_char_def Let_def ord_char_of)

lemma alpha_lower: "ascii_alpha (lower_char c) \<Longrightarrow> ascii_lower (lower_char c)"
  using lower_char_not_upper[of c] by (simp add: ascii_alpha_def)

lemma alpha_is_word: "ascii_alpha c \<Longrightarrow> is_word c"
  by (auto simp: ascii_alpha_def ascii_lower_def ascii_upper_def is_word_def Let_def)

lemma is_space_letter: "\<not> is_space CHR ''a''" "\<not> is_space CHR ''b''" "\<not> is_space CHR ''c''"
  by (simp_all add: is_space_def ord_def)

lemma strip_replicate: "\<not> is_space x \<Longrightarrow> strip (replicate n x) = replicate n x"
  by (simp add: strip_def)

subsection \<open>The tokenizer\<close>

lemma takeWhile_alpha_le: "length (takeWhile ascii_alpha s) \<le> length (takeWhile is_word s)"
  by (induction s) (auto simp: alpha_is_word)

lemma takeWhile_nth_P: "i < length (takeWhile P s) \<Longrightarrow> P (s ! i)"
  by (metis nth_mem set_takeWhileD takeWhile_nth)

lemma char_at_after_run: "\<not> word_at (char_at s (length (takeWhile is_word s)))"
  by (induction s) (auto simp: char_at_def word_at_def)

lemma letters3_iff:
  "letters3 (takeWhile is_word s) \<longleftrightarrow>
     3 \<le> length (takeWhile ascii_alpha s) \<and> length (takeWhile ascii_alpha s) = length (takeWhile is_word s)"
proof -
  have "list_all ascii_alpha (takeWhile is_word s) \<longleftrightarrow>
      length (takeWhile ascii_alpha s) = length (takeWhile is_word s)"
    by (induction s) (auto simp: alpha_is_word)
  then show ?thesis by (auto simp: letters3_def)
qed

lemma boundary_inside:
  assumes "0 < k" "k \<le> length (takeWhile ascii_alpha s)"
  shows "word_boundary (char_at s (k - 1)) (char_at s k) \<longleftrightarrow> \<not> word_at (char_at s k)"
proof -
  have "k - 1 < length (takeWhile ascii_alpha s)" using assms by simp
  then have "ascii_alpha (s ! (k - 1))" by (rule takeWhile_nth_P)
  moreover have "k - 1 < length s"
    using assms length_takeWhile_le[of ascii_alpha s] by simp
  ultimately show ?thesis
    by (simp add: word_boundary_def char_at_def word_at_def alpha_is_word)
qed

lemma no_boundary_inside:
  assumes "0 < k" "k < length (takeWhile ascii_alpha s)"
  shows "\<not> word_boundary (char_at s (k - 1)) (char_at s k)"
proof -
  have "ascii_alpha (s ! k)" using assms(2) by (rule takeWhile_nth_P)
  moreover have "k < length s"
    using assms length_takeWhile_le[of ascii_alpha s] by simp
  ultimately have "word_at (char_at s k)"
    by (simp add: char_at_def word_at_def alpha_is_word)
  then show ?thesis using boundary_inside[of k s] assms by simp
qed

lemma find_backtrack_None:
  "n \<le> length (takeWhile ascii_alpha s) \<Longrightarrow>
    find (\<lambda>k. word_boundary (char_at s (k - 1)) (char_at s k)) (rev [3..<n]) = None"
proof -
  assume n: "n \<le> length (takeWhile ascii_alpha s)"
  have "\<not> word_boundary (char_at s (k - 1)) (char_at s k)" if "k \<in> set (rev [3..<n])" for k
    using that n no_boundary_inside[of k s] by simp
  then show ?thesis unfolding find_None_iff by blast
qed

lemma word_at_mid:
  assumes "length (takeWhile ascii_alpha s) < length (takeWhile is_word s)"
  shows "word_at (char_at s (length (takeWhile ascii_alpha s)))"
proof -
  have "is_word (s ! length (takeWhile ascii_alpha s))" using assms by (rule takeWhile_nth_P)
  moreover have "length (takeWhile ascii_alpha s) < length s"
    using assms length_takeWhile_le[of is_word s] by simp
  ultimately show ?thesis by (simp add: char_at_def word_at_def)
qed

text \<open>
  A match attempt succeeds exactly at the start of a word of at least three letters and
  nothing else, and then takes the whole word.
\<close>

lemma match_at_char:
  "match_at prev s =
     (if \<not> word_at prev \<and> letters3 (takeWhile is_word s)
      then Some (length (takeWhile is_word s)) else None)"
proof -
  let ?n = "length (takeWhile ascii_alpha s)"
  let ?r = "length (takeWhile is_word s)"
  let ?P = "\<lambda>k. word_boundary (char_at s (k - 1)) (char_at s k)"
  have le: "?n \<le> ?r" by (rule takeWhile_alpha_le)
  have fnd: "find ?P (rev [3..<Suc ?n]) = (if 3 \<le> ?n \<and> ?n = ?r then Some ?n else None)"
  proof (cases "3 \<le> ?n")
    case False
    then show ?thesis by simp
  next
    case True
    then have up: "rev [3..<Suc ?n] = ?n # rev [3..<?n]" by simp
    have Pn: "?P ?n \<longleftrightarrow> ?n = ?r"
    proof (cases "?n = ?r")
      case True
      have "?P ?n \<longleftrightarrow> \<not> word_at (char_at s ?n)"
        using \<open>3 \<le> ?n\<close> by (intro boundary_inside) auto
      also have "\<dots>" unfolding True by (rule char_at_after_run)
      finally show ?thesis using True by simp
    next
      case False
      then have "?n < ?r" using le by simp
      then have "word_at (char_at s ?n)" by (rule word_at_mid)
      moreover have "?P ?n \<longleftrightarrow> \<not> word_at (char_at s ?n)"
        using \<open>3 \<le> ?n\<close> by (intro boundary_inside) auto
      ultimately show ?thesis using False by simp
    qed
    show ?thesis unfolding up using Pn True find_backtrack_None[of ?n s] by simp
  qed
  have start: "word_boundary prev (char_at s 0) \<longleftrightarrow> (word_at prev \<noteq> (0 < ?r))"
    by (cases s) (auto simp: word_boundary_def char_at_def word_at_def)
  show ?thesis
  proof (cases "word_boundary prev (char_at s 0)")
    case False
    then have "\<not> (\<not> word_at prev \<and> letters3 (takeWhile is_word s))"
      using start by (auto simp: letters3_def)
    then show ?thesis using False by (simp add: match_at_def)
  next
    case True
    show ?thesis
    proof (cases "word_at prev")
      case wp: True
      then have "?r = 0" using start True by simp
      then have "?n = 0" using le by simp
      then show ?thesis using wp True by (simp add: match_at_def)
    next
      case wp: False
      show ?thesis using wp True fnd by (simp add: match_at_def Let_def letters3_iff)
    qed
  qed
qed

lemma findall_from_runs:
  "findall_from prev s =
     (if word_at prev then filter letters3 (word_runs (dropWhile is_word s))
      else filter letters3 (word_runs s))"
proof (induction prev s rule: findall_from.induct)
  case (1 prev)
  show ?case by simp
next
  case (2 prev c cs)
  let ?s = "c # cs"
  let ?r = "length (takeWhile is_word ?s)"
  show ?case
  proof (cases "\<not> word_at prev \<and> letters3 (takeWhile is_word ?s)")
    case True
    then have m: "match_at prev ?s = Some ?r" by (simp add: match_at_char)
    have r3: "3 \<le> ?r" using True by (simp add: letters3_def)
    then have wc: "is_word c" by (auto split: if_splits)
    have "?r - 1 < ?r" using r3 by simp
    then have "is_word (?s ! (?r - 1))" by (rule takeWhile_nth_P)
    moreover have "?r - 1 < length ?s"
      using r3 length_takeWhile_le[of is_word ?s] by simp
    ultimately have wl: "word_at (char_at ?s (?r - 1))"
      by (simp add: char_at_def word_at_def)
    have tk: "take ?r ?s = takeWhile is_word ?s" by (rule takeWhile_eq_take[symmetric])
    have dr: "drop ?r ?s = dropWhile is_word ?s" by (rule dropWhile_eq_drop[symmetric])
    have "findall_from prev ?s = take ?r ?s # findall_from (char_at ?s (?r - 1)) (drop ?r ?s)"
      using m by simp
    also have "findall_from (char_at ?s (?r - 1)) (drop ?r ?s) =
        filter letters3 (word_runs (dropWhile is_word (drop ?r ?s)))"
      using "2.IH"(2)[OF m] wl by simp
    finally have "findall_from prev ?s =
        takeWhile is_word ?s # filter letters3 (word_runs (dropWhile is_word ?s))"
      unfolding tk dr by simp
    then show ?thesis using True wc by simp
  next
    case False
    then have m: "match_at prev ?s = None" by (simp add: match_at_char)
    have "findall_from prev ?s = findall_from (Some c) cs" using m by simp
    also have "\<dots> = (if is_word c then filter letters3 (word_runs (dropWhile is_word cs))
        else filter letters3 (word_runs cs))"
      using "2.IH"(1)[OF m] by (simp add: word_at_def)
    finally show ?thesis using False by auto
  qed
qed

lemma findall_runs: "findall s = filter letters3 (word_runs s)"
  by (simp add: findall_def findall_from_runs word_at_def)

lemma word_runs_subset: "t \<in> set (word_runs s) \<Longrightarrow> set t \<subseteq> set s"
proof (induction s arbitrary: t rule: word_runs.induct)
  case 1
  then show ?case by simp
next
  case (2 c cs)
  show ?case
  proof (cases "is_word c")
    case False
    then show ?thesis using 2 by auto
  next
    case True
    then have "t = takeWhile is_word (c # cs) \<or> t \<in> set (word_runs (dropWhile is_word cs))"
      using "2.prems" by simp
    then show ?thesis
    proof
      assume "t = takeWhile is_word (c # cs)"
      then show ?thesis by (auto dest: set_takeWhileD)
    next
      assume "t \<in> set (word_runs (dropWhile is_word cs))"
      then have "set t \<subseteq> set (dropWhile is_word cs)" using "2.IH"(1) True by simp
      then show ?thesis by (auto dest: set_dropWhileD)
    qed
  qed
qed

lemma findall_lower_token:
  assumes "t \<in> set (findall (lower s))"
  shows "3 \<le> length t \<and> list_all ascii_lower t"
proof -
  from assms have l3: "letters3 t" and tr: "t \<in> set (word_runs (lower s))"
    by (simp_all add: findall_runs)
  have "ascii_lower x" if "x \<in> set t" for x
  proof -
    have "x \<in> set (lower s)" using word_runs_subset[OF tr] that by auto
    then obtain y where "x = lower_char y" by (auto simp: lower_def)
    moreover have "ascii_alpha x" using l3 that by (simp add: letters3_def list_all_iff)
    ultimately show ?thesis using alpha_lower by simp
  qed
  then show ?thesis using l3 by (simp add: letters3_def list_all_iff)
qed

text \<open>
  C3, as stated: the tokens are the maximal runs of letters of length at least 3 of the
  lowered text, every other character separating, so that \<^verbatim>\<open>abc123\<close> gives the token
  \<^verbatim>\<open>abc\<close>. The code gives no token for \<^verbatim>\<open>abc123\<close>: the digit after \<^verbatim>\<open>abc\<close> is a word
  character, and \<^verbatim>\<open>\b\<close> does not hold between \<^verbatim>\<open>c\<close> and \<^verbatim>\<open>1\<close>.
\<close>

theorem letters_before_digits_counterexample:
  "''abc'' \<in> set (letter_runs3 (lower ''abc123'')) \<and> ''abc'' \<notin> set (findall (lower ''abc123''))"
  by code_simp

text \<open>
  C3, amended: for every string, and so for every lowered text, the tokens are exactly
  the maximal runs of word characters (letters, digits, underscore) that consist of
  letters only and have length at least 3, in text order. Characters that are not word
  characters separate; a run of letters next to a digit or an underscore gives no token,
  so \<^verbatim>\<open>abc123\<close> gives none.
\<close>

theorem tokens_are_letter_words:
  "findall s = filter letters3 (word_runs s)
   \<and> findall (lower ''abc123'') = []
   \<and> findall (lower ''abc123 Reset-password, e.g. via_mail'') = [''reset'', ''password'']"
proof -
  have "findall (lower ''abc123'') = []" by code_simp
  moreover have "findall (lower ''abc123 Reset-password, e.g. via_mail'') = [''reset'', ''password'']"
    by code_simp
  ultimately show ?thesis by (simp add: findall_runs)
qed

subsection \<open>Counting and ranking\<close>

lemma first_seen_snoc:
  "first_seen (ws @ [w]) = (if w \<in> set ws then first_seen ws else first_seen ws @ [w])"
  by (simp add: first_seen_def)

lemma set_first_seen: "set (first_seen ws) = set ws"
  by (simp add: first_seen_def)

lemma distinct_first_seen: "distinct (first_seen ws)"
  by (simp add: first_seen_def)

lemma first_index_less: "w \<in> set ws \<Longrightarrow> first_index ws w < length ws"
  by (induction ws) auto

lemma first_index_append:
  "first_index (xs @ ys) w =
     (if w \<in> set xs then first_index xs w else length xs + first_index ys w)"
  by (induction xs) auto

lemma first_seen_increasing:
  "sorted_wrt (\<lambda>a b. first_index ws a < first_index ws b) (first_seen ws)"
proof (induction ws rule: rev_induct)
  case Nil
  show ?case by (simp add: first_seen_def)
next
  case (snoc w ws)
  have old: "sorted_wrt (\<lambda>a b. first_index (ws @ [w]) a < first_index (ws @ [w]) b) (first_seen ws)"
    using snoc by (rule sorted_wrt_mono_rel[rotated]) (simp add: first_index_append set_first_seen)
  show ?case
  proof (cases "w \<in> set ws")
    case True
    then show ?thesis using old by (simp add: first_seen_snoc)
  next
    case False
    then have "\<forall>a \<in> set (first_seen ws). first_index (ws @ [w]) a < first_index (ws @ [w]) w"
      by (auto simp: first_index_append set_first_seen first_index_less)
    then show ?thesis using old False by (simp add: first_seen_snoc sorted_wrt_append)
  qed
qed

lemma counter_add_map:
  assumes "distinct ks"
  shows "counter_add (map (\<lambda>k. (k, g k)) ks) w =
     (if w \<in> set ks then map (\<lambda>k. (k, if k = w then g k + 1 else g k)) ks
      else map (\<lambda>k. (k, g k)) ks @ [(w, 1)])"
  using assms by (induction ks) auto

lemma Counter_snoc: "Counter (ws @ [w]) = counter_add (Counter ws) w"
  by (simp add: Counter_def)

text \<open>The counter holds each token once, in first-occurrence order, with its frequency.\<close>

lemma Counter_eq: "Counter ws = map (\<lambda>w. (w, count_list ws w)) (first_seen ws)"
proof (induction ws rule: rev_induct)
  case Nil
  show ?case by (simp add: Counter_def first_seen_def)
next
  case (snoc w ws)
  have "Counter (ws @ [w]) = counter_add (map (\<lambda>k. (k, count_list ws k)) (first_seen ws)) w"
    using snoc by (simp add: Counter_snoc)
  also have "\<dots> = map (\<lambda>k. (k, count_list (ws @ [w]) k)) (first_seen (ws @ [w]))"
    by (auto simp: counter_add_map distinct_first_seen set_first_seen first_seen_snoc)
  finally show ?case .
qed

text \<open>
  The sort by descending count is stable: entries of equal count keep the order they
  have in the counter.
\<close>

lemma insort_ranked:
  fixes f :: "'a \<Rightarrow> int" and pos :: "'a \<Rightarrow> nat"
  assumes "sorted_wrt (\<lambda>a b. f a < f b \<or> (f a = f b \<and> pos a < pos b)) ys"
    and "\<forall>y \<in> set ys. pos x < pos y"
  shows "sorted_wrt (\<lambda>a b. f a < f b \<or> (f a = f b \<and> pos a < pos b)) (insort_key f x ys)"
  using assms by (induction ys) (auto simp: set_insort_key)

lemma sort_key_ranked:
  fixes f :: "'a \<Rightarrow> int" and pos :: "'a \<Rightarrow> nat"
  assumes "sorted_wrt (\<lambda>a b. pos a < pos b) xs"
  shows "sorted_wrt (\<lambda>a b. f a < f b \<or> (f a = f b \<and> pos a < pos b)) (sort_key f xs)"
  using assms
proof (induction xs)
  case Nil
  show ?case by simp
next
  case (Cons x xs)
  then have "sorted_wrt (\<lambda>a b. f a < f b \<or> (f a = f b \<and> pos a < pos b)) (sort_key f xs)"
    and "\<forall>y \<in> set (sort_key f xs). pos x < pos y"
    by simp_all
  then show ?case by (simp add: insort_ranked)
qed

lemma keyword_counts_ranked:
  "sorted_wrt (\<lambda>a b. ranks_before ks (fst a) (fst b))
     (sort_key (\<lambda>item. - int (snd item)) (Counter ks))"
proof -
  let ?f = "\<lambda>item :: string \<times> nat. - int (snd item)"
  let ?pos = "\<lambda>item :: string \<times> nat. first_index ks (fst item)"
  have "sorted_wrt (\<lambda>a b. ?pos a < ?pos b) (Counter ks)"
    using first_seen_increasing[of ks] by (simp add: Counter_eq sorted_wrt_map)
  then have "sorted_wrt (\<lambda>a b. ?f a < ?f b \<or> (?f a = ?f b \<and> ?pos a < ?pos b))
      (sort_key ?f (Counter ks))"
    by (rule sort_key_ranked)
  moreover have cnt: "snd a = count_list ks (fst a)"
    if "a \<in> set (sort_key ?f (Counter ks))" for a
    using that by (auto simp: Counter_eq)
  have "ranks_before ks (fst a) (fst b)"
    if "a \<in> set (sort_key ?f (Counter ks))" "b \<in> set (sort_key ?f (Counter ks))"
      "?f a < ?f b \<or> (?f a = ?f b \<and> ?pos a < ?pos b)" for a b
    using that(3) cnt[OF that(1)] cnt[OF that(2)] by (auto simp: ranks_before_def)
  ultimately show ?thesis
    by (rule sorted_wrt_mono_rel[rotated])
qed

lemma sorted_wrt_irrefl_distinct:
  assumes "sorted_wrt R xs" and "\<And>x. \<not> R x x"
  shows "distinct xs"
  using assms by (induction xs) auto

lemma ranked_keywords:
  fixes ks :: "string list"
  defines "ranked \<equiv> map fst (sort_key (\<lambda>item. - int (snd item)) (Counter ks))"
  shows "sorted_wrt (ranks_before ks) ranked" and "set ranked = set ks"
    and "distinct ranked" and "length ranked = card (set ks)"
proof -
  show sorted: "sorted_wrt (ranks_before ks) ranked"
    using keyword_counts_ranked[of ks] by (simp add: ranked_def sorted_wrt_map)
  show "set ranked = set ks"
    by (simp add: ranked_def Counter_eq set_first_seen image_image)
  show "distinct ranked"
    using sorted by (rule sorted_wrt_irrefl_distinct) (simp add: ranks_before_def)
  have "length ranked = length (first_seen ks)" by (simp add: ranked_def Counter_eq)
  also have "\<dots> = card (set (first_seen ks))"
    using distinct_first_seen[of ks] by (simp add: distinct_card)
  finally show "length ranked = card (set ks)" by (simp add: set_first_seen)
qed

lemma extract_keywords_eq:
  "extract_keywords text =
     take 20 (map fst (sort_key (\<lambda>item. - int (snd item)) (Counter (keyword_tokens text))))"
  by (simp add: extract_keywords_def keyword_tokens_def most_common_def Let_def take_map)

text \<open>
  C4: the keywords are the 20 highest-ranked tokens that are no stop words (all of them
  when there are fewer than 20 different ones), listed by descending frequency, and among
  tokens of equal frequency the one first seen earlier comes first; every token left out
  ranks after every keyword. The ranking is a function of the text alone.
\<close>

theorem keywords_ranked:
  "length (extract_keywords text) = min 20 (card (set (keyword_tokens text)))
   \<and> set (extract_keywords text) \<subseteq> set (keyword_tokens text)
   \<and> sorted_wrt (ranks_before (keyword_tokens text)) (extract_keywords text)
   \<and> (\<forall>v \<in> set (extract_keywords text).
        \<forall>w \<in> set (keyword_tokens text) - set (extract_keywords text).
          ranks_before (keyword_tokens text) v w)"
proof -
  let ?ks = "keyword_tokens text"
  let ?L = "map fst (sort_key (\<lambda>item. - int (snd item)) (Counter ?ks))"
  have out: "extract_keywords text = take 20 ?L" by (rule extract_keywords_eq)
  have sorted: "sorted_wrt (ranks_before ?ks) (take 20 ?L @ drop 20 ?L)"
    using ranked_keywords(1)[of "?ks"] by simp
  have sets: "set ?ks = set (take 20 ?L) \<union> set (drop 20 ?L)"
    using ranked_keywords(2)[of "?ks"] set_append[of "take 20 ?L" "drop 20 ?L"] by simp
  have "length (extract_keywords text) = min 20 (card (set ?ks))"
    unfolding out using ranked_keywords(4)[of "?ks"] by simp
  moreover have "set (extract_keywords text) \<subseteq> set ?ks"
    unfolding out using sets by blast
  moreover have "sorted_wrt (ranks_before ?ks) (extract_keywords text)"
    unfolding out using sorted unfolding sorted_wrt_append by blast
  moreover have "\<forall>v \<in> set (extract_keywords text). \<forall>w \<in> set ?ks - set (extract_keywords text).
      ranks_before ?ks v w"
    unfolding out using sorted sets unfolding sorted_wrt_append by blast
  ultimately show ?thesis by blast
qed

theorem keywords_ranked_witness:
  "''sierra'' \<in> set (extract_keywords sample_text)
   \<and> ''tango'' \<in> set (keyword_tokens sample_text)
   \<and> ''tango'' \<notin> set (extract_keywords sample_text)
   \<and> ranks_before (keyword_tokens sample_text) ''sierra'' ''tango''
   \<and> length (extract_keywords sample_text) = 20"
proof -
  have kept: "''sierra'' \<in> set (extract_keywords sample_text)"
    by code_simp
  have token: "''tango'' \<in> set (keyword_tokens sample_text)"
    by code_simp
  have dropped: "''tango'' \<notin> set (extract_keywords sample_text)"
    by code_simp
  have many: "card (set (keyword_tokens sample_text)) = 22"
    by code_simp
  from keywords_ranked[of sample_text] kept token dropped many show ?thesis
    by auto
qed

text \<open>
  C2: for every text the keyword list has at most 20 entries and no duplicates, and every
  entry consists of lower-case letters only, has length at least 3 and is no stop word.
\<close>

theorem keywords_bounded:
  "length (extract_keywords text) \<le> 20
   \<and> distinct (extract_keywords text)
   \<and> (\<forall>w \<in> set (extract_keywords text).
        3 \<le> length w \<and> (\<forall>c \<in> set w. ascii_lower c) \<and> w \<notin> set stop_words)"
proof -
  let ?ks = "keyword_tokens text"
  let ?L = "map fst (sort_key (\<lambda>item. - int (snd item)) (Counter ?ks))"
  have out: "extract_keywords text = take 20 ?L" by (rule extract_keywords_eq)
  have "length (extract_keywords text) \<le> 20" unfolding out by simp
  moreover have "distinct (extract_keywords text)"
    unfolding out using ranked_keywords(3)[of "?ks"] by (rule distinct_take)
  moreover have "3 \<le> length w \<and> (\<forall>c \<in> set w. ascii_lower c) \<and> w \<notin> set stop_words"
    if "w \<in> set (extract_keywords text)" for w
  proof -
    have "w \<in> set ?L" using that unfolding out by (rule in_set_takeD)
    then have "w \<in> set ?ks" using ranked_keywords(2)[of "?ks"] by simp
    then have "w \<in> set (findall (lower text))" and "w \<notin> set stop_words"
      by (simp_all add: keyword_tokens_def)
    then show ?thesis using findall_lower_token[of w "text"] by (simp add: list_all_iff)
  qed
  ultimately show ?thesis by blast
qed

theorem keywords_bounded_witness:
  "''quick'' \<in> set (extract_keywords ''The quick brown fox; the QUICK brown fox jumps'')
   \<and> 3 \<le> length ''quick'' \<and> ascii_lower CHR ''q'' \<and> ''quick'' \<notin> set stop_words
   \<and> length (extract_keywords ''The quick brown fox; the QUICK brown fox jumps'') \<le> 20"
proof -
  let ?t = "''The quick brown fox; the QUICK brown fox jumps''"
  have mem: "''quick'' \<in> set (extract_keywords ?t)"
    by code_simp
  with keywords_bounded[of "?t"] show ?thesis by auto
qed

subsection \<open>Text resolution and the chunk filter\<close>

lemma filter_chunks_acc:
  "foldl (filter_step cfg) acc es = acc @ map (make_chunk cfg) (filter (keeps cfg) es)"
  by (induction es arbitrary: acc) (simp_all add: filter_step_def)

lemma filter_chunks_eq: "filter_chunks cfg es = map (make_chunk cfg) (filter (keeps cfg) es)"
  by (simp add: filter_chunks_def filter_chunks_acc)

lemma chunk_text_make_chunk: "chunk_text (make_chunk cfg element) = resolve_text element"
  by (simp add: make_chunk_def Let_def)

lemma resolve_text_text_element: "resolve_text (text_element s) = strip s"
  by (simp add: resolve_text_def text_element_def dict_get_def py_or_def resolve_value_def strip_def)

lemma resolve_text_replicate:
  "\<not> is_space x \<Longrightarrow> resolve_text (text_element (replicate n x)) = replicate n x"
  by (simp add: resolve_text_text_element strip_replicate)

text \<open>
  C10: when the \<^verbatim>\<open>text\<close> key is present with a falsy value (\<^verbatim>\<open>None\<close>, the empty
  string or the empty list), the resolved text is the one resolved from the \<^verbatim>\<open>content\<close>
  key, the same as for the element without the \<^verbatim>\<open>text\<close> key; and a list resolves to
  its entries without the falsy ones (\<^verbatim>\<open>None\<close> and the empty string), joined by single
  spaces and then stripped.
\<close>

theorem falsy_text_falls_back:
  "(el_text element = Some v \<and> (v = PNone \<or> v = PStr [] \<or> v = PList []) \<longrightarrow>
      resolve_text element = resolve_value (dict_get (el_content element) (PStr []))
      \<and> resolve_text element = resolve_text (element\<lparr>el_text := None\<rparr>))
   \<and> resolve_value (PList ts) =
       strip (join_spaces (map entry_str (filter (\<lambda>t. t \<noteq> ENone \<and> t \<noteq> EStr []) ts)))"
proof -
  have tr: "entry_truthy = (\<lambda>t. t \<noteq> ENone \<and> t \<noteq> EStr [])"
  proof
    fix t show "entry_truthy t = (t \<noteq> ENone \<and> t \<noteq> EStr [])" by (cases t) auto
  qed
  have "strip [] = []" by (simp add: strip_def)
  then have "resolve_value (PList ts) = strip (join_spaces (map entry_str (filter entry_truthy ts)))"
    by (simp add: resolve_value_def)
  then show ?thesis
    unfolding tr by (auto simp: resolve_text_def py_or_def dict_get_def)
qed

theorem falsy_text_falls_back_witness:
  "resolve_text \<lparr>el_text = Some (PList []),
       el_content = Some (PList [EStr ''Reset'', ENone, EStr [], EStr ''password '']),
       el_metadata = None, el_type = None, el_element_id = None, el_category = None\<rparr>
     = ''Reset password''
   \<and> resolve_text \<lparr>el_text = Some PNone, el_content = Some (PStr ''How to reset''),
       el_metadata = None, el_type = None, el_element_id = None, el_category = None\<rparr>
     = ''How to reset''"
proof -
  let ?ts = "[EStr ''Reset'', ENone, EStr [], EStr ''password '']"
  let ?e = "\<lparr>el_text = Some (PList []), el_content = Some (PList ?ts),
       el_metadata = None, el_type = None, el_element_id = None, el_category = None\<rparr>"
  let ?e2 = "\<lparr>el_text = Some PNone, el_content = Some (PStr ''How to reset''),
       el_metadata = None, el_type = None, el_element_id = None, el_category = None\<rparr>"
  have "resolve_text ?e = resolve_value (PList ?ts)"
    using falsy_text_falls_back[of ?e "PList []"] by (simp add: dict_get_def)
  also have "\<dots> = strip (join_spaces (map entry_str (filter (\<lambda>t. t \<noteq> ENone \<and> t \<noteq> EStr []) ?ts)))"
    using falsy_text_falls_back[of ?e "PList []" ?ts] by blast
  also have "\<dots> = ''Reset password''"
    by (simp add: strip_def is_space_def ord_def)
  finally have a: "resolve_text ?e = ''Reset password''" .
  have "resolve_text ?e2 = resolve_value (PStr ''How to reset'')"
    using falsy_text_falls_back[of ?e2 PNone] by (simp add: dict_get_def)
  also have "\<dots> = ''How to reset''"
    by (simp add: resolve_value_def strip_def is_space_def ord_def)
  finally show ?thesis using a by simp
qed

text \<open>
  C5, as stated: an element gives a chunk if and only if its resolved text has length at
  least the threshold. With the threshold configured as 0, an element whose text is
  empty has a text of length at least the threshold, and gives no chunk.
\<close>

theorem threshold_zero_counterexample:
  "MIN_CHUNK_LENGTH (default_config\<lparr>MIN_CHUNK_LENGTH := 0\<rparr>) \<le> int (length (resolve_text (text_element [])))
   \<and> filter_chunks (default_config\<lparr>MIN_CHUNK_LENGTH := 0\<rparr>) [text_element []] = []"
  by (simp add: filter_chunks_def filter_step_def keeps_def resolve_text_def text_element_def dict_get_def
      py_or_def resolve_value_def)

text \<open>
  C5, amended: an element gives a chunk if and only if its resolved text is not empty
  and has length at least the threshold; for a positive threshold, if and only if the
  length is at least the threshold. A text of exactly the threshold length is kept:
  elements of resolved lengths 50, 150 and 100 give, with threshold 100, exactly the
  chunks of the second and the third. The texts of the chunks are the resolved texts
  that pass, in order.
\<close>

theorem chunk_kept_iff:
  "filter_chunks cfg [element] =
     (if resolve_text element \<noteq> [] \<and> MIN_CHUNK_LENGTH cfg \<le> int (length (resolve_text element))
      then [make_chunk cfg element] else [])
   \<and> chunk_text (make_chunk cfg element) = resolve_text element
   \<and> (0 < MIN_CHUNK_LENGTH cfg \<longrightarrow>
        (filter_chunks cfg [element] \<noteq> [] \<longleftrightarrow> MIN_CHUNK_LENGTH cfg \<le> int (length (resolve_text element))))
   \<and> map chunk_text (filter_chunks cfg elements) =
        filter (\<lambda>t. t \<noteq> [] \<and> MIN_CHUNK_LENGTH cfg \<le> int (length t)) (map resolve_text elements)
   \<and> (MIN_CHUNK_LENGTH cfg = 100 \<and> length (resolve_text a) = 50 \<and> length (resolve_text b) = 150
        \<and> length (resolve_text c) = 100 \<longrightarrow>
        filter_chunks cfg [a, b, c] = [make_chunk cfg b, make_chunk cfg c])"
proof -
  have "map chunk_text (filter_chunks cfg elements) =
        filter (\<lambda>t. t \<noteq> [] \<and> MIN_CHUNK_LENGTH cfg \<le> int (length t)) (map resolve_text elements)"
  proof -
    have "keeps cfg = (\<lambda>x. resolve_text x \<noteq> [] \<and> MIN_CHUNK_LENGTH cfg \<le> int (length (resolve_text x)))"
      by (auto simp: keeps_def Let_def fun_eq_iff)
    then show ?thesis
      by (simp add: filter_chunks_eq filter_map comp_def chunk_text_make_chunk)
  qed
  moreover have "0 < MIN_CHUNK_LENGTH cfg \<longrightarrow>
        (filter_chunks cfg [element] \<noteq> [] \<longleftrightarrow> MIN_CHUNK_LENGTH cfg \<le> int (length (resolve_text element)))"
    by (auto simp: filter_chunks_eq keeps_def Let_def)
  ultimately show ?thesis
    by (auto simp: filter_chunks_eq keeps_def Let_def chunk_text_make_chunk)
qed

theorem chunk_kept_iff_witness:
  "0 < MIN_CHUNK_LENGTH default_config
   \<and> length (resolve_text (text_element (replicate 100 CHR ''c''))) = 100
   \<and> filter_chunks default_config [text_element (replicate 100 CHR ''c'')] \<noteq> []
   \<and> filter_chunks default_config [text_element (replicate 99 CHR ''c'')] = []
   \<and> filter_chunks default_config
        [text_element (replicate 50 CHR ''a''), text_element (replicate 150 CHR ''b''),
         text_element (replicate 100 CHR ''c'')]
      = [make_chunk default_config (text_element (replicate 150 CHR ''b'')),
         make_chunk default_config (text_element (replicate 100 CHR ''c''))]"
  using chunk_kept_iff [of default_config "text_element (replicate 100 CHR ''c'')" "[]"
      "text_element (replicate 50 CHR ''a'')" "text_element (replicate 150 CHR ''b'')"
      "text_element (replicate 100 CHR ''c'')"]
    chunk_kept_iff [of default_config "text_element (replicate 99 CHR ''c'')" "[]"
      "text_element (replicate 50 CHR ''a'')" "text_element (replicate 150 CHR ''b'')"
      "text_element (replicate 100 CHR ''c'')"]
  by (simp add: resolve_text_replicate is_space_letter default_config_def)

subsection \<open>The embedding loop\<close>

lemma embed_step_eq:
  "embed_step cfg create acc c = (if embeds cfg create c then acc @ [enrich create c] else acc)"
  by (auto simp: embed_step_def embeds_def enrich_def valid_embedding_def list_ex_iff isnan_def isinf_def
      split: sum.splits)

lemma generate_embeddings_acc:
  "foldl (embed_step cfg create) acc cs = acc @ map (enrich create) (filter (embeds cfg create) cs)"
  by (induction cs arbitrary: acc) (simp_all add: embed_step_eq)

lemma generate_embeddings_eq:
  "generate_embeddings cfg create cs = map (enrich create) (filter (embeds cfg create) cs)"
  by (simp add: generate_embeddings_def generate_embeddings_acc)

lemma truncate_attach: "chunk.truncate (attach c v) = c"
  by (simp add: attach_def chunk.truncate_def chunk.extend_def)

lemma vector_attach: "vector_field (attach c v) = v"
  by (simp add: attach_def chunk.extend_def enriched_chunk.fields_def)

lemma text_attach: "chunk_text (attach c v) = chunk_text c"
  by (simp add: attach_def chunk.extend_def)

lemma truncate_enrich: "chunk.truncate (enrich create c) = c"
  by (simp add: enrich_def truncate_attach)

lemma in_generate_embeddings:
  "ec \<in> set (generate_embeddings cfg create chunks) \<longleftrightarrow>
     (\<exists>c v. c \<in> set chunks \<and> create (chunk_text c) = Inr v \<and> valid_embedding cfg v \<and> ec = attach c v)"
proof
  assume "ec \<in> set (generate_embeddings cfg create chunks)"
  then obtain c where c: "c \<in> set chunks" "embeds cfg create c" "ec = enrich create c"
    by (auto simp: generate_embeddings_eq)
  then obtain v where "create (chunk_text c) = Inr v" "valid_embedding cfg v"
    by (auto simp: embeds_def split: sum.splits)
  then show "\<exists>c v. c \<in> set chunks \<and> create (chunk_text c) = Inr v \<and> valid_embedding cfg v \<and> ec = attach c v"
    using c by (auto simp: enrich_def)
next
  assume "\<exists>c v. c \<in> set chunks \<and> create (chunk_text c) = Inr v \<and> valid_embedding cfg v \<and> ec = attach c v"
  then obtain c v where cv: "c \<in> set chunks" "create (chunk_text c) = Inr v"
      "valid_embedding cfg v" "ec = attach c v"
    by blast
  then have "embeds cfg create c" "ec = enrich create c"
    by (simp_all add: embeds_def enrich_def)
  then show "ec \<in> set (generate_embeddings cfg create chunks)"
    using cv(1) by (auto simp: generate_embeddings_eq)
qed

lemma valid_embedding_iff:
  "valid_embedding cfg v \<longleftrightarrow>
     int (length v) = EMBEDDING_DIMENSION cfg \<and> (\<forall>x \<in> set v. x \<noteq> NaN \<and> x \<noteq> PosInf \<and> x \<noteq> NegInf)"
  by (auto simp: valid_embedding_def list_ex_iff isnan_def isinf_def)

text \<open>
  C6: every chunk of the output carries the vector its call returned, of the configured
  dimension and with no NaN and no infinity among its components, and is a chunk of the
  input. A chunk whose call fails, or returns a vector of another length or one with a
  NaN or an infinity, is absent from the output; a chunk whose call returns a valid
  vector is in it, whatever happened to the chunks before it: the output for a sequence
  is the concatenation of the outputs for its chunks.
\<close>

theorem embeddings_validated:
  "(\<forall>ec \<in> set (generate_embeddings cfg create chunks).
      int (length (vector_field ec)) = EMBEDDING_DIMENSION cfg
      \<and> (\<forall>x \<in> set (vector_field ec). x \<noteq> NaN \<and> x \<noteq> PosInf \<and> x \<noteq> NegInf)
      \<and> create (chunk_text ec) = Inr (vector_field ec)
      \<and> chunk.truncate ec \<in> set chunks)
   \<and> (\<forall>c \<in> set chunks.
        (\<exists>e. create (chunk_text c) = Inl e)
        \<or> (\<exists>v. create (chunk_text c) = Inr v
              \<and> (int (length v) \<noteq> EMBEDDING_DIMENSION cfg \<or> (\<exists>x \<in> set v. x = NaN \<or> x = PosInf \<or> x = NegInf)))
        \<longrightarrow> c \<notin> chunk.truncate ` set (generate_embeddings cfg create chunks))
   \<and> (\<forall>c \<in> set chunks. \<forall>v.
        create (chunk_text c) = Inr v \<and> int (length v) = EMBEDDING_DIMENSION cfg
        \<and> (\<forall>x \<in> set v. x \<noteq> NaN \<and> x \<noteq> PosInf \<and> x \<noteq> NegInf)
        \<longrightarrow> attach c v \<in> set (generate_embeddings cfg create chunks))
   \<and> generate_embeddings cfg create (before @ c # after) =
       generate_embeddings cfg create before @ generate_embeddings cfg create [c]
         @ generate_embeddings cfg create after"
proof (intro conjI ballI allI impI)
  fix ec assume ec: "ec \<in> set (generate_embeddings cfg create chunks)"
  then obtain c v where cv: "c \<in> set chunks" "create (chunk_text c) = Inr v"
      "valid_embedding cfg v" "ec = attach c v"
    unfolding in_generate_embeddings by blast
  show "int (length (vector_field ec)) = EMBEDDING_DIMENSION cfg"
    using cv by (simp add: vector_attach valid_embedding_iff)
  show "create (chunk_text ec) = Inr (vector_field ec)"
    using cv by (simp add: vector_attach text_attach)
  show "chunk.truncate ec \<in> set chunks" using cv by (simp add: truncate_attach)
  fix x assume "x \<in> set (vector_field ec)"
  then have "x \<noteq> NaN \<and> x \<noteq> PosInf \<and> x \<noteq> NegInf"
    using cv by (simp add: vector_attach valid_embedding_iff)
  then show "x \<noteq> NaN" "x \<noteq> PosInf" "x \<noteq> NegInf" by simp_all
next
  fix c
  assume c: "c \<in> set chunks"
    and bad: "(\<exists>e. create (chunk_text c) = Inl e)
        \<or> (\<exists>v. create (chunk_text c) = Inr v
              \<and> (int (length v) \<noteq> EMBEDDING_DIMENSION cfg \<or> (\<exists>x \<in> set v. x = NaN \<or> x = PosInf \<or> x = NegInf)))"
  show "c \<notin> chunk.truncate ` set (generate_embeddings cfg create chunks)"
  proof
    assume "c \<in> chunk.truncate ` set (generate_embeddings cfg create chunks)"
    then obtain ec where "ec \<in> set (generate_embeddings cfg create chunks)" "c = chunk.truncate ec"
      by blast
    then obtain c' v where cv: "create (chunk_text c') = Inr v" "valid_embedding cfg v" "ec = attach c' v"
      unfolding in_generate_embeddings by blast
    then have "c' = c" using \<open>c = chunk.truncate ec\<close> by (simp add: truncate_attach)
    then show False using bad cv by (auto simp: valid_embedding_iff)
  qed
next
  fix c v
  assume "c \<in> set chunks"
    and "create (chunk_text c) = Inr v \<and> int (length v) = EMBEDDING_DIMENSION cfg
        \<and> (\<forall>x \<in> set v. x \<noteq> NaN \<and> x \<noteq> PosInf \<and> x \<noteq> NegInf)"
  then show "attach c v \<in> set (generate_embeddings cfg create chunks)"
    unfolding in_generate_embeddings valid_embedding_iff by blast
next
  show "generate_embeddings cfg create (before @ c # after) =
       generate_embeddings cfg create before @ generate_embeddings cfg create [c]
         @ generate_embeddings cfg create after"
    by (simp add: generate_embeddings_eq)
qed

theorem embeddings_validated_witness:
  "generate_embeddings (default_config\<lparr>EMBEDDING_DIMENSION := 2\<rparr>) sample_provider
      [text_chunk ''down'', text_chunk ''short'', text_chunk ''nan'', text_chunk ''good'', text_chunk ''inf'']
     = [attach (text_chunk ''good'') [Finite 1, Finite 2]]
   \<and> attach (text_chunk ''good'') [Finite 1, Finite 2] \<in>
       set (generate_embeddings (default_config\<lparr>EMBEDDING_DIMENSION := 2\<rparr>) sample_provider
         [text_chunk ''down'', text_chunk ''short'', text_chunk ''nan'', text_chunk ''good'', text_chunk ''inf''])
   \<and> text_chunk ''nan'' \<notin> chunk.truncate `
       set (generate_embeddings (default_config\<lparr>EMBEDDING_DIMENSION := 2\<rparr>) sample_provider
         [text_chunk ''down'', text_chunk ''short'', text_chunk ''nan'', text_chunk ''good'', text_chunk ''inf''])"
proof -
  let ?cfg = "default_config\<lparr>EMBEDDING_DIMENSION := 2\<rparr>"
  let ?cs = "[text_chunk ''down'', text_chunk ''short'', text_chunk ''nan'', text_chunk ''good'', text_chunk ''inf'']"
  have good: "sample_provider (chunk_text (text_chunk ''good'')) = Inr [Finite 1, Finite 2]"
    by (simp add: sample_provider_def text_chunk_def)
  have nan: "sample_provider (chunk_text (text_chunk ''nan'')) = Inr [Finite 1, NaN]"
    by (simp add: sample_provider_def text_chunk_def)
  have mem: "attach (text_chunk ''good'') [Finite 1, Finite 2] \<in> set (generate_embeddings ?cfg sample_provider ?cs)"
    using embeddings_validated[of ?cfg sample_provider ?cs] good by simp
  have out: "text_chunk ''nan'' \<notin> chunk.truncate ` set (generate_embeddings ?cfg sample_provider ?cs)"
    using embeddings_validated[of ?cfg sample_provider ?cs] nan by simp
  have "generate_embeddings ?cfg sample_provider ?cs = [attach (text_chunk ''good'') [Finite 1, Finite 2]]"
    by (simp add: generate_embeddings_def embed_step_def sample_provider_def text_chunk_def isnan_def isinf_def)
  then show ?thesis using mem out by simp
qed

text \<open>
  C8: the output of the chunk filter is the chunks of the elements that are kept, in
  input order and with nothing in between; the output of the embedding loop, without the
  vectors, is the subsequence of the input chunks that embed, in input order, and is no
  longer than the input.
\<close>

theorem order_preserved:
  "filter_chunks cfg elements = map (make_chunk cfg) (filter (keeps cfg) elements)
   \<and> map chunk.truncate (generate_embeddings cfg create chunks) = filter (embeds cfg create) chunks
   \<and> subseq (map chunk.truncate (generate_embeddings cfg create chunks)) chunks
   \<and> length (generate_embeddings cfg create chunks) \<le> length chunks"
  by (simp add: filter_chunks_eq generate_embeddings_eq truncate_enrich comp_def)

subsection \<open>Document assembly and bulk indexing\<close>

text \<open>
  C7: in the document built from a chunk, \<^verbatim>\<open>content\<close>, \<^verbatim>\<open>text\<close> and \<^verbatim>\<open>page_content\<close>
  are the chunk's text, \<^verbatim>\<open>keywords\<close> is the chunk's keyword list, and
  \<^verbatim>\<open>keywords_text\<close> is the keywords joined by single spaces: the empty string for no
  keywords.
\<close>

theorem document_fields:
  "doc_content (make_doc c) = chunk_text c
   \<and> doc_text (make_doc c) = chunk_text c
   \<and> doc_page_content (make_doc c) = chunk_text c
   \<and> doc_keywords (make_doc c) = chunk_keywords c
   \<and> doc_keywords_text (make_doc c) = join_spaces (chunk_keywords c)
   \<and> doc_keywords_text (make_doc (c\<lparr>chunk_keywords := []\<rparr>)) = []
   \<and> doc_keywords_text (make_doc (c\<lparr>chunk_keywords := [''reset'', ''password'', ''email'']\<rparr>))
       = ''reset password email''
   \<and> action_source (make_action cfg i c) = make_doc c"
  by (simp add: make_doc_def make_action_def)

lemma action_id_make_chunk:
  "action_id (make_action cfg i (attach (make_chunk cfg' element) v)) = dict_get (el_element_id element) []"
  by (simp add: make_action_def attach_def chunk.extend_def make_chunk_def Let_def dict_get_def)

text \<open>
  C1: the identity key is to be the element's id when there is one, and otherwise
  \<^verbatim>\<open>support_chunk_\<close> followed by the position, so that keys differ within a run. In
  the code the chunk filter stores the empty string under \<^verbatim>\<open>element_id\<close> for an
  element without an id, the key is therefore always present when the action is built,
  and the default \<^verbatim>\<open>support_chunk_i\<close> of the lookup is never taken: two elements
  without an id, both kept and embedded under the default configuration, get the same
  identity key, the empty string.
\<close>

theorem missing_element_ids_collide:
  "map action_id
     (make_actions default_config
        (generate_embeddings default_config (\<lambda>t. Inr (replicate 1536 (Finite 0)))
           (filter_chunks default_config
              [text_element (replicate 100 CHR ''a''), text_element (replicate 100 CHR ''b'')])))
   = [[], []]"
proof -
  let ?a = "text_element (replicate 100 CHR ''a'')" and ?b = "text_element (replicate 100 CHR ''b'')"
  let ?v = "replicate 1536 (Finite 0)"
  have chunks: "filter_chunks default_config [?a, ?b] = [make_chunk default_config ?a, make_chunk default_config ?b]"
    by (simp add: filter_chunks_eq keeps_def resolve_text_replicate is_space_letter default_config_def)
  have valid: "valid_embedding default_config ?v"
    by (simp add: valid_embedding_def default_config_def list_ex_iff isnan_def isinf_def)
  have "generate_embeddings default_config (\<lambda>t. Inr ?v) (filter_chunks default_config [?a, ?b]) =
      [attach (make_chunk default_config ?a) ?v, attach (make_chunk default_config ?b) ?v]"
    unfolding chunks by (simp add: generate_embeddings_eq embeds_def enrich_def valid)
  then show ?thesis
    by (simp add: make_actions_def enumerate_eq_zip upt_rec action_id_make_chunk text_element_def dict_get_def)
qed

lemma failed_items_of_lines:
  "filter is_failed_item (map failure_line items) = map failure_line items"
  by (induction items) (simp_all add: is_failed_item_def failure_line_def Let_def)

text \<open>
  C9: when the bulk call returns, the report ends with the count of accepted documents
  and the count of rejected ones, and has one line, with identity key and reason, for
  each of the first 5 rejected documents and for no other; when the bulk call raises,
  the function raises the same exception.
\<close>

theorem bulk_report:
  "(bulk (make_actions cfg chunks) = Inr (success_count, failed) \<longrightarrow>
      snd (index_to_opensearch cfg bulk chunks) = Inr ()
      \<and> last (fst (index_to_opensearch cfg bulk chunks)) = IndexingComplete success_count (length failed)
      \<and> filter is_failed_item (fst (index_to_opensearch cfg bulk chunks)) = map failure_line (take 5 failed)
      \<and> length (filter is_failed_item (fst (index_to_opensearch cfg bulk chunks))) = min 5 (length failed))
   \<and> (bulk (make_actions cfg chunks) = Inl e \<longrightarrow>
        index_to_opensearch cfg bulk chunks = ([BulkError e], Inl e))
   \<and> failure_line (Some \<lparr>info_id = Some doc_id, info_error = Some (ErrDict (Some reason))\<rparr>)
       = FailedItem doc_id reason"
proof -
  have "filter is_failed_item (fst (index_to_opensearch cfg bulk chunks)) = map failure_line (take 5 failed)"
    if "bulk (make_actions cfg chunks) = Inr (success_count, failed)"
    using that by (simp add: index_to_opensearch_def Let_def failed_items_of_lines is_failed_item_def)
  moreover have "length (map failure_line (take 5 failed)) = min 5 (length failed)" by simp
  moreover have "snd (index_to_opensearch cfg bulk chunks) = Inr ()
      \<and> last (fst (index_to_opensearch cfg bulk chunks)) = IndexingComplete success_count (length failed)"
    if "bulk (make_actions cfg chunks) = Inr (success_count, failed)"
    using that by (simp add: index_to_opensearch_def Let_def)
  moreover have "index_to_opensearch cfg bulk chunks = ([BulkError e], Inl e)"
    if "bulk (make_actions cfg chunks) = Inl e"
    using that by (simp add: index_to_opensearch_def)
  moreover have "failure_line (Some \<lparr>info_id = Some doc_id, info_error = Some (ErrDict (Some reason))\<rparr>)
       = FailedItem doc_id reason"
    by (simp add: failure_line_def dict_get_def)
  ultimately show ?thesis by presburger
qed

theorem bulk_report_witness:
  "index_to_opensearch default_config
      (\<lambda>actions. Inr (8, [rejected ''a1'' ''mapper_parsing_exception'', rejected ''a2'' ''illegal_argument_exception'']))
      []
     = ([FailedHeader 2, FailedItem ''a1'' ''mapper_parsing_exception'',
         FailedItem ''a2'' ''illegal_argument_exception'', IndexingComplete 8 2], Inr ())
   \<and> last (fst (index_to_opensearch default_config
      (\<lambda>actions. Inr (8, [rejected ''a1'' ''mapper_parsing_exception'', rejected ''a2'' ''illegal_argument_exception'']))
      [])) = IndexingComplete 8 2
   \<and> length (filter is_failed_item (fst (index_to_opensearch default_config
        (\<lambda>actions. Inr (3, replicate 7 (rejected ''a1'' ''mapper_parsing_exception''))) []))) = 5
   \<and> index_to_opensearch default_config (\<lambda>actions. Inl (Error ''ConnectionError'')) []
       = ([BulkError (Error ''ConnectionError'')], Inl (Error ''ConnectionError''))"
proof -
  let ?two = "[rejected ''a1'' ''mapper_parsing_exception'', rejected ''a2'' ''illegal_argument_exception'']"
  have "last (fst (index_to_opensearch default_config (\<lambda>actions. Inr (8, ?two)) [])) = IndexingComplete 8 2"
    using bulk_report[of "\<lambda>actions. Inr (8, ?two)" default_config "[]" 8 ?two] by simp
  moreover have "length (filter is_failed_item (fst (index_to_opensearch default_config
        (\<lambda>actions. Inr (3, replicate 7 (rejected ''a1'' ''mapper_parsing_exception''))) []))) = 5"
    using bulk_report[of "\<lambda>actions. Inr (3, replicate 7 (rejected ''a1'' ''mapper_parsing_exception''))"
        default_config "[]" 3 "replicate 7 (rejected ''a1'' ''mapper_parsing_exception'')"]
    by simp
  moreover have "index_to_opensearch default_config (\<lambda>actions. Inl (Error ''ConnectionError'')) []
       = ([BulkError (Error ''ConnectionError'')], Inl (Error ''ConnectionError''))"
    using bulk_report[of "\<lambda>actions. Inl (Error ''ConnectionError'')" default_config "[]" _ _ "Error ''ConnectionError''"]
    by simp
  moreover have "index_to_opensearch default_config (\<lambda>actions. Inr (8, ?two)) []
     = ([FailedHeader 2, FailedItem ''a1'' ''mapper_parsing_exception'',
         FailedItem ''a2'' ''illegal_argument_exception'', IndexingComplete 8 2], Inr ())"
    by (simp add: index_to_opensearch_def failure_line_def rejected_def dict_get_def)
  ultimately show ?thesis by simp
qed

end
